theory Spec2Isabelle
  imports Complex_Main
begin

section \<open>Errors as values\<close>

text \<open>
  The Python exceptions that the modelled code can raise.  \<open>NonFinite\<close> is not an
  exception: it marks a numpy operation that leaves the real numbers (\<open>np.log\<close> of a
  non-positive argument yields \<open>nan\<close> or \<open>-inf\<close> and a warning).  All arithmetic is
  modelled over the reals; rounding, overflow and underflow of double precision are
  not part of the model.
\<close>

datatype error = ValueError | IndexError | ZeroDivisionError | OverflowError | NonFinite

definition bind_err :: "error + 'a \<Rightarrow> ('a \<Rightarrow> error + 'b) \<Rightarrow> error + 'b" where
  "bind_err m f = (case m of Inl e \<Rightarrow> Inl e | Inr x \<Rightarrow> f x)"

text \<open>A \<open>for\<close> loop whose body may raise: the first exception ends the loop.\<close>

fun for_loop :: "('a \<Rightarrow> 's \<Rightarrow> error + 's) \<Rightarrow> 'a list \<Rightarrow> 's \<Rightarrow> error + 's" where
  "for_loop body [] s = Inr s"
| "for_loop body (x # xs) s = bind_err (body x s) (for_loop body xs)"

text \<open>
  Python indexing of a sequence of \<open>len\<close> items: the index \<open>-len \<le> i < 0\<close> counts from
  the end, an index outside \<open>-len \<le> i < len\<close> raises \<open>IndexError\<close>.
\<close>

definition py_index :: "nat \<Rightarrow> int \<Rightarrow> error + nat" where
  "py_index len i =
     (if 0 \<le> i \<and> i < int len then Inr (nat i)
      else if - int len \<le> i \<and> i < 0 then Inr (nat (int len + i))
      else Inl IndexError)"

definition py_getitem :: "'a list \<Rightarrow> int \<Rightarrow> error + 'a" where
  "py_getitem xs i = bind_err (py_index (length xs) i) (\<lambda>j. Inr (xs ! j))"

definition py_setitem :: "'a list \<Rightarrow> int \<Rightarrow> 'a \<Rightarrow> error + 'a list" where
  "py_setitem xs i v = bind_err (py_index (length xs) i) (\<lambda>j. Inr (xs[j := v]))"

text \<open>Float division of Python, \<open>math.pow\<close> and \<open>np.log\<close> on real arguments.\<close>

definition py_div :: "real \<Rightarrow> real \<Rightarrow> error + real" where
  "py_div a b = (if b = 0 then Inl ZeroDivisionError else Inr (a / b))"

definition py_pow :: "real \<Rightarrow> real \<Rightarrow> error + real" where
  "py_pow x y =
     (if 0 < x then Inr (x powr y)
      else if x = 0 then (if y < 0 then Inl ValueError else if y = 0 then Inr 1 else Inr 0)
      else if y \<in> \<int> then Inr (power_int x \<lfloor>y\<rfloor>)
      else Inl ValueError)"

definition np_log :: "real \<Rightarrow> error + real" where
  "np_log x = (if 0 < x then Inr (ln x) else Inl NonFinite)"

section \<open>The row transform (hansenlaw.py, iabel\_hansenlaw\_transform)\<close>

text \<open>
  \<open>np.gradient\<close> of a one-dimensional array with unit spacing: central differences
  inside, first-order one-sided differences at both ends; fewer than two samples raise
  \<open>ValueError\<close>.
\<close>

definition gradient :: "real list \<Rightarrow> real list" where
  "gradient f =
     (let N = length f in
      map (\<lambda>i. if i = 0 then f ! 1 - f ! 0
               else if i = N - 1 then f ! (N - 1) - f ! (N - 2)
               else (f ! (i + 1) - f ! (i - 1)) / 2) [0..<N])"

definition np_gradient :: "real list \<Rightarrow> error + real list" where
  "np_gradient f = (if length f < 2 then Inl ValueError else Inr (gradient f))"

definition h :: "real list" where
  "h = [0.318, 0.19, 0.35, 0.82, 1.8, 3.9, 8.3, 19.6, 48.3]"

definition lam :: "real list" where
  "lam = [0.0, -2.1, -6.2, -22.4, -92.5, -414.5, -1889.4, -8990.9, -47391.1]"

definition Gamma :: "real \<Rightarrow> real \<Rightarrow> error + real" where
  "Gamma Nm l =
     (if l < -1
      then bind_err (py_pow Nm l) (\<lambda>p. py_div (1.0 - p) (pi * l))
      else bind_err (np_log Nm) (\<lambda>v. Inr (- v / pi)))"

text \<open>
  Line 51, the body of the loop over \<open>k\<close>: the indices \<open>k < K\<close> and \<open>n < N - 1\<close> are in
  range of \<open>lam\<close>, \<open>h\<close>, \<open>X\<close> and \<open>gp\<close> by the loop bounds.
\<close>

definition term_step :: "real \<Rightarrow> real list \<Rightarrow> nat \<Rightarrow> nat \<Rightarrow> real list \<Rightarrow> error + real list" where
  "term_step Nm gp n k X =
     bind_err (py_pow Nm (lam ! k)) (\<lambda>p.
     bind_err (Gamma Nm (lam ! k)) (\<lambda>G.
     Inr (X[k := p * X ! k + h ! k * G * gp ! n])))"

text \<open>Lines 49 to 52, the body of the loop over \<open>n\<close>; the state is \<open>(X, AImgRow)\<close>.\<close>

definition pixel_step ::
  "nat \<Rightarrow> nat \<Rightarrow> real list \<Rightarrow> nat \<Rightarrow> real list \<times> real list \<Rightarrow> error + real list \<times> real list" where
  "pixel_step K N gp n s =
     (case s of (X, AImgRow) \<Rightarrow>
        bind_err (py_div (real N - real n) (real N - real n - 1.0)) (\<lambda>Nm.
        bind_err (for_loop (term_step Nm gp n) [0..<K] X) (\<lambda>X'.
        Inr (X', AImgRow[n := sum_list X']))))"

definition iabel_hansenlaw_transform :: "real list \<Rightarrow> error + real list" where
  "iabel_hansenlaw_transform ImgRow =
     (let K = length h; N = length ImgRow;
          X = replicate K 0; AImgRow = replicate N 0
      in bind_err (np_gradient ImgRow) (\<lambda>gp.
         bind_err (for_loop (pixel_step K N gp) [0..<N - 1] (X, AImgRow)) (\<lambda>(X', A).
         bind_err (py_getitem A (int N - 2)) (\<lambda>v.
         bind_err (py_setitem A (int N - 1) v) (\<lambda>A'.
         Inr (map uminus A'))))))"

subsection \<open>The Hansen-Law recursion as the specification words it\<close>

definition Nm_spec :: "nat \<Rightarrow> nat \<Rightarrow> real" where
  "Nm_spec N n = (real N - real n) / (real N - real n - 1)"

definition Gamma_spec :: "real \<Rightarrow> real \<Rightarrow> real" where
  "Gamma_spec Nm l = (if l < -1 then (1 - Nm powr l) / (pi * l) else - ln Nm / pi)"

text \<open>\<open>X_spec N g k m\<close> is accumulator \<open>k\<close> after the first \<open>m\<close> columns.\<close>

fun X_spec :: "nat \<Rightarrow> real list \<Rightarrow> nat \<Rightarrow> nat \<Rightarrow> real" where
  "X_spec N g k 0 = 0"
| "X_spec N g k (Suc n) =
     Nm_spec N n powr (lam ! k) * X_spec N g k n
     + h ! k * Gamma_spec (Nm_spec N n) (lam ! k) * g ! n"

definition output_spec :: "nat \<Rightarrow> real list \<Rightarrow> nat \<Rightarrow> real" where
  "output_spec N g n = (\<Sum>k<9. X_spec N g k (Suc n))"

definition hansenlaw_spec :: "real list \<Rightarrow> real list" where
  "hansenlaw_spec row =
     (let N = length row; g = gradient row
      in map uminus (map (output_spec N g) [0..<N - 1] @ [output_spec N g (N - 2)]))"

section \<open>Images and quadrants (hansenlaw.py, iabel\_hansenlaw)\<close>

text \<open>
  A two-dimensional array is the list of its rows, all of one length.  The empty list
  stands for the array of shape \<open>(0, 0)\<close>; an array with no rows and a positive number
  of columns has no counterpart in this model.
\<close>

type_synonym image = "real list list"

definition has_shape :: "image \<Rightarrow> nat \<Rightarrow> nat \<Rightarrow> bool" where
  "has_shape a N M \<longleftrightarrow> length a = N \<and> (\<forall>r \<in> set a. length r = M)"

definition np_shape :: "image \<Rightarrow> nat \<times> nat" where
  "np_shape a = (length a, case a of [] \<Rightarrow> 0 | r # _ \<Rightarrow> length r)"

text \<open>
  \<open>np.array_split(a, 2, axis)\<close>: two pieces, the first one taking the extra row or
  column when the extent is odd.
\<close>

definition array_split_axis1 :: "image \<Rightarrow> image \<times> image" where
  "array_split_axis1 a =
     (let M = snd (np_shape a); k = (M + 1) div 2 in (map (take k) a, map (drop k) a))"

definition array_split_axis0 :: "image \<Rightarrow> image \<times> image" where
  "array_split_axis0 a = (let N = length a; k = (N + 1) div 2 in (take k a, drop k a))"

definition np_fliplr :: "image \<Rightarrow> image" where
  "np_fliplr a = map rev a"

definition np_flipud :: "image \<Rightarrow> image" where
  "np_flipud a = rev a"

text \<open>Lines 76 to 81: the four oriented quadrants \<open>(Q0, Q1, Q2, Q3)\<close>.\<close>

definition split_quadrants :: "image \<Rightarrow> image \<times> image \<times> image \<times> image" where
  "split_quadrants data =
     (let (left, right) = array_split_axis1 data;
          (Q0, Q3) = array_split_axis0 right;
          (Q1, Q2) = array_split_axis0 left;
          Q0 = np_fliplr Q0;
          Q2 = np_flipud Q2;
          Q3 = np_fliplr (np_flipud Q3)
      in (Q0, Q1, Q2, Q3))"

text \<open>
  \<open>np.concatenate\<close> of two arrays: along axis 1 the numbers of rows must agree, along
  axis 0 the numbers of columns.
\<close>

definition np_concatenate_axis1 :: "image \<Rightarrow> image \<Rightarrow> error + image" where
  "np_concatenate_axis1 a b =
     (if length a = length b then Inr (map2 (@) a b) else Inl ValueError)"

definition np_concatenate_axis0 :: "image \<Rightarrow> image \<Rightarrow> error + image" where
  "np_concatenate_axis0 a b =
     (if a \<noteq> [] \<and> b \<noteq> [] \<and> snd (np_shape a) \<noteq> snd (np_shape b)
      then Inl ValueError else Inr (a @ b))"

text \<open>Lines 107 to 109: the image reformed from four quadrants.\<close>

definition reform_image :: "image \<times> image \<times> image \<times> image \<Rightarrow> error + image" where
  "reform_image AQ =
     (case AQ of (AQ0, AQ1, AQ2, AQ3) \<Rightarrow>
        bind_err (np_concatenate_axis1 AQ1 (np_fliplr AQ0)) (\<lambda>Top.
        bind_err (np_concatenate_axis1 AQ2 (np_fliplr AQ3)) (\<lambda>B.
        np_concatenate_axis0 Top (np_flipud B))))"

text \<open>
  Elementwise addition with numpy's broadcasting: along each axis the extents agree or
  one of them is 1.  Multiplying by a Python \<open>bool\<close> multiplies by 1 or 0.
\<close>

definition broadcast :: "'a list \<Rightarrow> 'b list \<Rightarrow> error + ('a \<times> 'b) list" where
  "broadcast xs ys =
     (if length xs = length ys then Inr (zip xs ys)
      else if length xs = 1 then Inr (zip (replicate (length ys) (hd xs)) ys)
      else if length ys = 1 then Inr (zip xs (replicate (length xs) (hd ys)))
      else Inl ValueError)"

fun map_err :: "('a \<Rightarrow> error + 'b) \<Rightarrow> 'a list \<Rightarrow> error + 'b list" where
  "map_err f [] = Inr []"
| "map_err f (x # xs) =
     bind_err (f x) (\<lambda>y. bind_err (map_err f xs) (\<lambda>ys. Inr (y # ys)))"

definition np_add_row :: "real list \<Rightarrow> real list \<Rightarrow> error + real list" where
  "np_add_row r s = bind_err (broadcast r s) (\<lambda>ps. Inr (map (\<lambda>(x, y). x + y) ps))"

definition np_add :: "image \<Rightarrow> image \<Rightarrow> error + image" where
  "np_add a b = bind_err (broadcast a b) (map_err (\<lambda>(r, s). np_add_row r s))"

definition np_mul_bool :: "image \<Rightarrow> bool \<Rightarrow> image" where
  "np_mul_bool a b = map (map (\<lambda>x. x * of_bool b)) a"

type_synonym quad = "bool \<times> bool \<times> bool \<times> bool"

text \<open>Line 87: \<open>Q0*quad[0]+Q1*quad[1]+Q2*quad[2]+Q3*quad[3]\<close>, summed from the left.\<close>

definition coadd :: "quad \<Rightarrow> image \<times> image \<times> image \<times> image \<Rightarrow> error + image" where
  "coadd q Qs =
     (case q of (q0, q1, q2, q3) \<Rightarrow> case Qs of (Q0, Q1, Q2, Q3) \<Rightarrow>
        bind_err (np_add (np_mul_bool Q0 q0) (np_mul_bool Q1 q1)) (\<lambda>S1.
        bind_err (np_add S1 (np_mul_bool Q2 q2)) (\<lambda>S2.
        np_add S2 (np_mul_bool Q3 q3))))"

text \<open>
  \<open>mp.Pool(processes=p)\<close> raises \<open>ValueError\<close> for \<open>p < 1\<close>; \<open>pool.map\<close> returns the
  results in the order of its arguments and re-raises an exception of a job.  The
  processes themselves are not modelled.
\<close>

definition mp_Pool :: "int \<Rightarrow> error + nat" where
  "mp_Pool processes = (if processes < 1 then Inl ValueError else Inr (nat processes))"

definition pool_map :: "nat \<Rightarrow> ('a \<Rightarrow> error + 'b) \<Rightarrow> 'a list \<Rightarrow> error + 'b list" where
  "pool_map pool f xs = map_err f xs"

text \<open>\<open>[Q[row] for row in range(N2)]\<close>\<close>

definition rows_of :: "image \<Rightarrow> nat \<Rightarrow> error + real list list" where
  "rows_of Q N2 = map_err (\<lambda>row. py_getitem Q (int row)) [0..<N2]"

text \<open>
  Printing is a log of messages next to the result; what was printed before an
  exception stays printed.  Elapsed times are not modelled.
\<close>

datatype msg = ImageSize nat nat | CoAdding | Individual | Calculating | Seconds | GeneratingSpeeds

type_synonym 'a io = "msg list \<times> (error + 'a)"

definition io_bind :: "'a io \<Rightarrow> ('a \<Rightarrow> 'b io) \<Rightarrow> 'b io" where
  "io_bind m f =
     (case m of
        (out, Inl e) \<Rightarrow> (out, Inl e)
      | (out, Inr x) \<Rightarrow> (case f x of (out', r) \<Rightarrow> (out @ out', r)))"

definition io_lift :: "error + 'a \<Rightarrow> 'a io" where
  "io_lift r = ([], r)"

text \<open>\<open>if verbose: print (...)\<close>\<close>

definition io_print :: "bool \<Rightarrow> msg \<Rightarrow> unit io" where
  "io_print verbose m = (if verbose then [m] else [], Inr ())"

text \<open>Lines 84 to 104: the transformed quadrants \<open>(AQ0, AQ1, AQ2, AQ3)\<close>.\<close>

definition invert_quadrants ::
  "nat \<Rightarrow> quad \<Rightarrow> bool \<Rightarrow> nat \<Rightarrow> image \<times> image \<times> image \<times> image \<Rightarrow>
   (real list list \<times> real list list \<times> real list list \<times> real list list) io" where
  "invert_quadrants pool q verbose N2 Qs =
     (case q of (q0, q1, q2, q3) \<Rightarrow> case Qs of (Q0, Q1, Q2, Q3) \<Rightarrow>
        if q0 \<or> q1 \<or> q2 \<or> q3 then
          io_bind (io_print verbose CoAdding) (\<lambda>_.
          io_bind (io_lift (coadd q Qs)) (\<lambda>Q.
          io_bind (io_print verbose Calculating) (\<lambda>_.
          io_bind (io_lift (bind_err (rows_of Q N2) (pool_map pool iabel_hansenlaw_transform))) (\<lambda>AQ0.
          io_lift (Inr (AQ0, AQ0, AQ0, AQ0))))))
        else
          io_bind (io_print verbose Individual) (\<lambda>_.
          io_bind (io_print verbose Calculating) (\<lambda>_.
          io_bind (io_lift (bind_err (rows_of Q0 N2) (pool_map pool iabel_hansenlaw_transform))) (\<lambda>AQ0.
          io_bind (io_lift (bind_err (rows_of Q1 N2) (pool_map pool iabel_hansenlaw_transform))) (\<lambda>AQ1.
          io_bind (io_lift (bind_err (rows_of Q2 N2) (pool_map pool iabel_hansenlaw_transform))) (\<lambda>AQ2.
          io_bind (io_lift (bind_err (rows_of Q3 N2) (pool_map pool iabel_hansenlaw_transform))) (\<lambda>AQ3.
          io_lift (Inr (AQ0, AQ1, AQ2, AQ3)))))))))"

text \<open>
  \<open>pool.map\<close> returns a Python list of rows.  numpy converts it to an array where it is
  used; the empty list becomes a one-dimensional array, on which \<open>np.fliplr\<close> raises
  \<open>ValueError\<close>.  \<open>AQ0\<close> is converted first, in \<open>np.fliplr(AQ0)\<close>.
\<close>

definition asarray_2d :: "real list list \<Rightarrow> error + image" where
  "asarray_2d rows = (if rows = [] then Inl ValueError else Inr rows)"

definition as_arrays ::
  "real list list \<times> real list list \<times> real list list \<times> real list list \<Rightarrow>
   error + image \<times> image \<times> image \<times> image" where
  "as_arrays AQ =
     (case AQ of (AQ0, AQ1, AQ2, AQ3) \<Rightarrow>
        bind_err (asarray_2d AQ0) (\<lambda>A0.
        bind_err (asarray_2d AQ1) (\<lambda>A1.
        bind_err (asarray_2d AQ3) (\<lambda>A3.
        bind_err (asarray_2d AQ2) (\<lambda>A2.
        Inr (A0, A1, A2, A3))))))"

text \<open>
  The whole function.  \<open>cpu_count\<close> is \<open>mp.cpu_count()\<close> of the machine and
  \<open>calculate_speeds\<close> the function of \<open>abel.tools\<close>, both taken as parameters.  The
  result is the reconstructed image, with the speeds when \<open>calc_speeds\<close> is set.
\<close>

definition iabel_hansenlaw ::
  "nat \<Rightarrow> (image \<Rightarrow> nat \<Rightarrow> 's) \<Rightarrow> image \<Rightarrow> quad \<Rightarrow> bool \<Rightarrow> bool \<Rightarrow> int \<Rightarrow>
   (image \<times> 's option) io" where
  "iabel_hansenlaw cpu_count calculate_speeds data q calc_speeds verbose freecpus =
     io_bind (io_lift (mp_Pool (int cpu_count - freecpus))) (\<lambda>pool.
       (case np_shape data of (N, M) \<Rightarrow>
         (let N2 = N div 2 in
          io_bind (io_print verbose (ImageSize N M)) (\<lambda>_.
          io_bind (invert_quadrants pool q verbose N2 (split_quadrants data)) (\<lambda>AQ.
          io_bind (io_lift (bind_err (as_arrays AQ) reform_image)) (\<lambda>recon.
          io_bind (io_print verbose Seconds) (\<lambda>_.
          if calc_speeds then
            io_bind (io_print verbose GeneratingSpeeds) (\<lambda>_.
            (let speeds = calculate_speeds recon N in
             io_bind (io_print verbose Seconds) (\<lambda>_.
             io_lift (Inr (recon, Some speeds)))))
          else io_lift (Inr (recon, None)))))))))"

text \<open>
  A stand-in for \<open>calculate_speeds\<close> where a call of \<open>iabel_hansenlaw\<close> is evaluated on a
  concrete image: it computes no speeds.
\<close>

definition no_speeds :: "image \<Rightarrow> nat \<Rightarrow> unit" where
  "no_speeds recon N = ()"

section \<open>Centre of mass (tools/center.py, find\_center\_by\_center\_of\_mass)\<close>







text \<open>
  \<open>round\<close> of Python 3 with one argument: the nearest integer, a tie going to the even
  one; \<open>nan\<close> raises \<open>ValueError\<close> and an infinity \<open>OverflowError\<close>.
\<close>

definition round_half_even :: "real \<Rightarrow> int" where
  "round_half_even x =
     (let f = \<lfloor>x\<rfloor>; d = x - of_int f
      in if d < 1/2 then f else if 1/2 < d then f + 1 else if even f then f else f + 1)"






section \<open>The row transform on samples of any kind\<close>

text \<open>
  numpy keeps the samples, the gradient, \<open>X\<close> and \<open>AImgRow\<close> in float64 arrays: a sample
  may be \<open>nan\<close>, and each operation on samples rounds.  The transform is therefore
  written a second time over a sample type and its operations, which numpy applies
  without raising: the zero of \<open>np.zeros\<close>, sum and difference of two samples, the
  division by \<open>2.0\<close> in \<open>np.gradient\<close>, the product of a Python float and a sample,
  and the negation.  The ratio \<open>Nm\<close>, the powers and \<open>Gamma\<close> are Python floats computed
  from \<open>N\<close>, \<open>n\<close> and the tables alone; they stay real numbers with their checks, and
  so does the product \<open>h[k]*Gamma(Nm,lam[k])\<close>.
\<close>

record 'a arith =
  szero :: 'a
  sadd :: "'a \<Rightarrow> 'a \<Rightarrow> 'a"
  ssub :: "'a \<Rightarrow> 'a \<Rightarrow> 'a"
  shalf :: "'a \<Rightarrow> 'a"
  sscale :: "real \<Rightarrow> 'a \<Rightarrow> 'a"
  sneg :: "'a \<Rightarrow> 'a"

definition gradient_over :: "'a arith \<Rightarrow> 'a list \<Rightarrow> 'a list" where
  "gradient_over ar f =
     (let N = length f in
      map (\<lambda>i. if i = 0 then ssub ar (f ! 1) (f ! 0)
               else if i = N - 1 then ssub ar (f ! (N - 1)) (f ! (N - 2))
               else shalf ar (ssub ar (f ! (i + 1)) (f ! (i - 1)))) [0..<N])"

definition np_gradient_over :: "'a arith \<Rightarrow> 'a list \<Rightarrow> error + 'a list" where
  "np_gradient_over ar f = (if length f < 2 then Inl ValueError else Inr (gradient_over ar f))"

text \<open>
  \<open>X.sum()\<close> as a fold from the left, starting at zero; numpy may group the additions
  another way, which only the rounding can tell apart.
\<close>

definition np_sum :: "'a arith \<Rightarrow> 'a list \<Rightarrow> 'a" where
  "np_sum ar X = foldl (sadd ar) (szero ar) X"

definition term_step_over ::
  "'a arith \<Rightarrow> real \<Rightarrow> 'a list \<Rightarrow> nat \<Rightarrow> nat \<Rightarrow> 'a list \<Rightarrow> error + 'a list" where
  "term_step_over ar Nm gp n k X =
     bind_err (py_pow Nm (lam ! k)) (\<lambda>p.
     bind_err (Gamma Nm (lam ! k)) (\<lambda>G.
     Inr (X[k := sadd ar (sscale ar p (X ! k)) (sscale ar (h ! k * G) (gp ! n))])))"

definition pixel_step_over ::
  "'a arith \<Rightarrow> nat \<Rightarrow> nat \<Rightarrow> 'a list \<Rightarrow> nat \<Rightarrow> 'a list \<times> 'a list \<Rightarrow> error + 'a list \<times> 'a list" where
  "pixel_step_over ar K N gp n s =
     (case s of (X, AImgRow) \<Rightarrow>
        bind_err (py_div (real N - real n) (real N - real n - 1.0)) (\<lambda>Nm.
        bind_err (for_loop (term_step_over ar Nm gp n) [0..<K] X) (\<lambda>X'.
        Inr (X', AImgRow[n := np_sum ar X']))))"

definition iabel_hansenlaw_transform_over :: "'a arith \<Rightarrow> 'a list \<Rightarrow> error + 'a list" where
  "iabel_hansenlaw_transform_over ar ImgRow =
     (let K = length h; N = length ImgRow;
          X = replicate K (szero ar); AImgRow = replicate N (szero ar)
      in bind_err (np_gradient_over ar ImgRow) (\<lambda>gp.
         bind_err (for_loop (pixel_step_over ar K N gp) [0..<N - 1] (X, AImgRow)) (\<lambda>(X', A).
         bind_err (py_getitem A (int N - 2)) (\<lambda>v.
         bind_err (py_setitem A (int N - 1) v) (\<lambda>A'.
         Inr (map (sneg ar) A'))))))"

text \<open>Exact real samples: the operations of the first embedding.\<close>

definition real_arith :: "real arith" where
  "real_arith =
     \<lparr>szero = 0, sadd = (+), ssub = (-), shalf = (\<lambda>x. x / 2), sscale = (*), sneg = uminus\<rparr>"

text \<open>
  float64 samples: a finite value or \<open>nan\<close>.  A finite result is rounded to the nearest
  number with a significand of 53 bits, a tie going to the even significand; an
  operand \<open>nan\<close> gives \<open>nan\<close>.  Infinities, overflow and subnormal numbers are left out.
\<close>

datatype float64 = Finite real | Nan

definition round53 :: "real \<Rightarrow> real" where
  "round53 x =
     (if x = 0 then 0
      else (let u = 2 powr (of_int \<lfloor>log 2 \<bar>x\<bar>\<rfloor> - 52)
            in of_int (round_half_even (x / u)) * u))"

definition f64_op2 :: "(real \<Rightarrow> real \<Rightarrow> real) \<Rightarrow> float64 \<Rightarrow> float64 \<Rightarrow> float64" where
  "f64_op2 f a b =
     (case a of Nan \<Rightarrow> Nan
      | Finite x \<Rightarrow> (case b of Nan \<Rightarrow> Nan | Finite y \<Rightarrow> Finite (round53 (f x y))))"

definition f64_op1 :: "(real \<Rightarrow> real) \<Rightarrow> float64 \<Rightarrow> float64" where
  "f64_op1 f a = (case a of Nan \<Rightarrow> Nan | Finite x \<Rightarrow> Finite (round53 (f x)))"

definition f64 :: "float64 arith" where
  "f64 =
     \<lparr>szero = Finite 0, sadd = f64_op2 (+), ssub = f64_op2 (-),
      shalf = f64_op1 (\<lambda>x. x / 2), sscale = (\<lambda>c. f64_op1 (\<lambda>x. c * x)),
      sneg = f64_op1 uminus\<rparr>"

subsection \<open>The recursion over samples of any kind\<close>

fun X_over :: "'a arith \<Rightarrow> nat \<Rightarrow> 'a list \<Rightarrow> nat \<Rightarrow> nat \<Rightarrow> 'a" where
  "X_over ar N g k 0 = szero ar"
| "X_over ar N g k (Suc n) =
     sadd ar (sscale ar (Nm_spec N n powr (lam ! k)) (X_over ar N g k n))
             (sscale ar (h ! k * Gamma_spec (Nm_spec N n) (lam ! k)) (g ! n))"

definition output_over :: "'a arith \<Rightarrow> nat \<Rightarrow> 'a list \<Rightarrow> nat \<Rightarrow> 'a" where
  "output_over ar N g n = np_sum ar (map (\<lambda>k. X_over ar N g k (Suc n)) [0..<9])"

definition recursion_over :: "'a arith \<Rightarrow> nat \<Rightarrow> 'a list \<Rightarrow> 'a list" where
  "recursion_over ar N g =
     map (sneg ar) (map (output_over ar N g) [0..<N - 1] @ [output_over ar N g (N - 2)])"

section \<open>Loop invariants of the row transform\<close>

text \<open>The value line 51 stores in \<open>X[k]\<close>, and \<open>X\<close> after the first \<open>j\<close> terms.\<close>

definition term_value :: "real \<Rightarrow> real list \<Rightarrow> nat \<Rightarrow> real list \<Rightarrow> nat \<Rightarrow> real" where
  "term_value Nm gp n X k =
     Nm powr (lam ! k) * X ! k + h ! k * Gamma_spec Nm (lam ! k) * gp ! n"

definition partly :: "real \<Rightarrow> real list \<Rightarrow> nat \<Rightarrow> real list \<Rightarrow> nat \<Rightarrow> real list" where
  "partly Nm gp n X j =
     map (\<lambda>k. if k < j then term_value Nm gp n X k else X ! k) [0..<length X]"

text \<open>\<open>X\<close> and \<open>AImgRow\<close> after the first \<open>m\<close> columns.\<close>

definition X_after :: "nat \<Rightarrow> real list \<Rightarrow> nat \<Rightarrow> real list" where
  "X_after N g m = map (\<lambda>k. X_spec N g k m) [0..<9]"

definition A_after :: "nat \<Rightarrow> real list \<Rightarrow> nat \<Rightarrow> real list" where
  "A_after N g m = map (output_spec N g) [0..<m] @ replicate (N - m) 0"

text \<open>The same invariants over samples of any kind.\<close>

definition term_value_over ::
  "'a arith \<Rightarrow> real \<Rightarrow> 'a list \<Rightarrow> nat \<Rightarrow> 'a list \<Rightarrow> nat \<Rightarrow> 'a" where
  "term_value_over ar Nm gp n X k =
     sadd ar (sscale ar (Nm powr (lam ! k)) (X ! k))
             (sscale ar (h ! k * Gamma_spec Nm (lam ! k)) (gp ! n))"

definition partly_over ::
  "'a arith \<Rightarrow> real \<Rightarrow> 'a list \<Rightarrow> nat \<Rightarrow> 'a list \<Rightarrow> nat \<Rightarrow> 'a list" where
  "partly_over ar Nm gp n X j =
     map (\<lambda>k. if k < j then term_value_over ar Nm gp n X k else X ! k) [0..<length X]"

definition X_after_over :: "'a arith \<Rightarrow> nat \<Rightarrow> 'a list \<Rightarrow> nat \<Rightarrow> 'a list" where
  "X_after_over ar N g m = map (\<lambda>k. X_over ar N g k m) [0..<9]"

definition A_after_over :: "'a arith \<Rightarrow> nat \<Rightarrow> 'a list \<Rightarrow> nat \<Rightarrow> 'a list" where
  "A_after_over ar N g m = map (output_over ar N g) [0..<m] @ replicate (N - m) (szero ar)"

text \<open>A float64 sample that is finite and negative.\<close>

definition negative :: "float64 \<Rightarrow> bool" where
  "negative a = (case a of Nan \<Rightarrow> False | Finite x \<Rightarrow> x < 0)"

section \<open>Properties of the row transform\<close>

lemma bind_err_Inr [simp]: "bind_err (Inr x) f = f x"
  by (simp add: bind_err_def)

lemma bind_err_Inl [simp]: "bind_err (Inl e) f = Inl e"
  by (simp add: bind_err_def)

lemma for_loop_append:
  "for_loop body (xs @ ys) s = bind_err (for_loop body xs s) (for_loop body ys)"
  by (induction xs arbitrary: s) (auto simp: bind_err_def split: sum.splits)

lemma length_h [simp]: "length h = 9"
  by (simp add: h_def)

lemma length_lam [simp]: "length lam = 9"
  by (simp add: lam_def)

lemma length_gradient [simp]: "length (gradient f) = length f"
  by (simp add: gradient_def Let_def)

lemma Nm_spec_gt_1: "Suc n < N \<Longrightarrow> 1 < Nm_spec N n"
  by (simp add: Nm_spec_def field_simps)

lemma py_div_Nm: "Suc n < N \<Longrightarrow> py_div (real N - real n) (real N - real n - 1.0) = Inr (Nm_spec N n)"
  by (auto simp: py_div_def Nm_spec_def)

lemma py_pow_pos: "0 < x \<Longrightarrow> py_pow x y = Inr (x powr y)"
  by (simp add: py_pow_def)

lemma Gamma_pos: "0 < Nm \<Longrightarrow> Gamma Nm l = Inr (Gamma_spec Nm l)"
  by (auto simp: Gamma_def Gamma_spec_def py_pow_pos py_div_def np_log_def)

lemma term_step_pos:
  "0 < Nm \<Longrightarrow> term_step Nm gp n k X = Inr (X[k := term_value Nm gp n X k])"
  by (simp add: term_step_def py_pow_pos Gamma_pos term_value_def)

lemma length_partly [simp]: "length (partly Nm gp n X j) = length X"
  by (simp add: partly_def)

lemma nth_partly:
  "k < length X \<Longrightarrow> partly Nm gp n X j ! k = (if k < j then term_value Nm gp n X k else X ! k)"
  by (simp add: partly_def)

lemma partly_0: "partly Nm gp n X 0 = X"
  by (simp add: partly_def map_nth)

lemma partly_Suc:
  assumes "j < length X"
  shows "(partly Nm gp n X j)[j := term_value Nm gp n (partly Nm gp n X j) j] = partly Nm gp n X (Suc j)"
proof (rule nth_equalityI)
  show "length ((partly Nm gp n X j)[j := term_value Nm gp n (partly Nm gp n X j) j]) =
        length (partly Nm gp n X (Suc j))"
    by simp
next
  fix i
  assume "i < length ((partly Nm gp n X j)[j := term_value Nm gp n (partly Nm gp n X j) j])"
  then have i: "i < length X" by simp
  have same: "term_value Nm gp n (partly Nm gp n X j) j = term_value Nm gp n X j"
    using assms by (simp add: term_value_def nth_partly)
  show "(partly Nm gp n X j)[j := term_value Nm gp n (partly Nm gp n X j) j] ! i =
        partly Nm gp n X (Suc j) ! i"
  proof (cases "i = j")
    case True
    then show ?thesis using i by (simp add: same nth_partly)
  next
    case False
    then show ?thesis using i by (simp add: nth_partly less_Suc_eq)
  qed
qed

lemma term_loop:
  assumes "0 < Nm"
  shows "j \<le> length X \<Longrightarrow> for_loop (term_step Nm gp n) [0..<j] X = Inr (partly Nm gp n X j)"
proof (induction j)
  case 0
  then show ?case by (simp add: partly_0)
next
  case (Suc j)
  then have IH: "for_loop (term_step Nm gp n) [0..<j] X = Inr (partly Nm gp n X j)" by simp
  have j: "j < length X" using Suc.prems by simp
  have "for_loop (term_step Nm gp n) [0..<Suc j] X =
        bind_err (for_loop (term_step Nm gp n) [0..<j] X) (for_loop (term_step Nm gp n) [j])"
    by (simp only: upt_Suc_append [OF le0] for_loop_append)
  also have "\<dots> = term_step Nm gp n j (partly Nm gp n X j)"
    by (simp only: IH bind_err_Inr for_loop.simps bind_err_def sum.case split: sum.split) (simp split: sum.split)
  also have "\<dots> = Inr (partly Nm gp n X (Suc j))"
    by (simp only: term_step_pos [OF assms] partly_Suc [OF j])
  finally show ?case .
qed

lemma sum_list_upt9: "sum_list (map f [0..<9]) = (\<Sum>k<9. f k)"
  by (simp add: interv_sum_list_conv_sum_set_nat lessThan_atLeast0)

lemma partly_full: "partly (Nm_spec N n) g n (X_after N g n) 9 = X_after N g (Suc n)"
  by (rule nth_equalityI) (simp_all add: X_after_def nth_partly term_value_def)

lemma A_after_Suc: "m < N \<Longrightarrow> (A_after N g m)[m := output_spec N g m] = A_after N g (Suc m)"
  by (rule nth_equalityI)
     (auto simp: A_after_def nth_list_update nth_append less_Suc_eq)

lemma pixel_step_spec:
  assumes "Suc n < N"
  shows "pixel_step 9 N g n (X_after N g n, A_after N g n) = Inr (X_after N g (Suc n), A_after N g (Suc n))"
proof -
  have pos: "0 < Nm_spec N n" using Nm_spec_gt_1 [OF assms] by simp
  have len: "9 \<le> length (X_after N g n)" by (simp add: X_after_def)
  have loop: "for_loop (term_step (Nm_spec N n) g n) [0..<9] (X_after N g n) = Inr (X_after N g (Suc n))"
    by (simp only: term_loop [OF pos len] partly_full)
  have s: "sum_list (X_after N g (Suc n)) = output_spec N g n"
    unfolding X_after_def output_spec_def by (rule sum_list_upt9)
  have n: "n < N" using assms by simp
  show ?thesis
    by (simp only: pixel_step_def prod.case py_div_Nm [OF assms] bind_err_Inr loop s A_after_Suc [OF n])
qed

lemma pixel_loop:
  "m < N \<Longrightarrow> for_loop (pixel_step 9 N g) [0..<m] (X_after N g 0, A_after N g 0) =
     Inr (X_after N g m, A_after N g m)"
proof (induction m)
  case 0
  then show ?case by simp
next
  case (Suc m)
  then have IH: "for_loop (pixel_step 9 N g) [0..<m] (X_after N g 0, A_after N g 0) =
       Inr (X_after N g m, A_after N g m)" by simp
  have "for_loop (pixel_step 9 N g) [0..<Suc m] (X_after N g 0, A_after N g 0) =
        bind_err (for_loop (pixel_step 9 N g) [0..<m] (X_after N g 0, A_after N g 0))
          (for_loop (pixel_step 9 N g) [m])"
    by (simp only: upt_Suc_append [OF le0] for_loop_append)
  also have "\<dots> = bind_err (pixel_step 9 N g m (X_after N g m, A_after N g m)) Inr"
    by (simp only: IH bind_err_Inr for_loop.simps) (simp add: bind_err_def split: sum.split)
  also have "\<dots> = Inr (X_after N g (Suc m), A_after N g (Suc m))"
    by (simp only: pixel_step_spec [OF Suc.prems] bind_err_Inr)
  finally show ?case .
qed

lemma start_state: "(replicate 9 0, replicate N 0) = (X_after N g 0, A_after N g 0)"
  by (simp add: X_after_def A_after_def list_eq_iff_nth_eq)

lemma transform_eq_spec:
  assumes "2 \<le> length row"
  shows "iabel_hansenlaw_transform row = Inr (hansenlaw_spec row) \<and>
         length (hansenlaw_spec row) = length row"
proof -
  define N where "N = length row"
  define g where "g = gradient row"
  have N: "N - 1 < N" "2 \<le> N" using assms by (simp_all add: N_def)
  have grad: "np_gradient row = Inr g" using assms by (simp add: np_gradient_def g_def)
  have loop: "for_loop (pixel_step 9 N g) [0..<N - 1] (replicate 9 0, replicate N 0) =
              Inr (X_after N g (N - 1), A_after N g (N - 1))"
    by (simp only: start_state [of N g] pixel_loop [OF N(1)])
  have A: "A_after N g (N - 1) = map (output_spec N g) [0..<N - 1] @ [0]"
    using N(2) by (simp add: A_after_def)
  have get: "py_getitem (A_after N g (N - 1)) (int N - 2) = Inr (output_spec N g (N - 2))"
    unfolding A using N(2) by (auto simp: py_getitem_def py_index_def nth_append nat_diff_distrib)
  have set: "py_setitem (A_after N g (N - 1)) (int N - 1) v = Inr (map (output_spec N g) [0..<N - 1] @ [v])" for v
    unfolding A using N(2) by (simp add: py_setitem_def py_index_def nat_diff_distrib list_update_append)
  have "iabel_hansenlaw_transform row = Inr (hansenlaw_spec row)"
    unfolding iabel_hansenlaw_transform_def hansenlaw_spec_def Let_def N_def [symmetric]
      g_def [symmetric] length_h
    by (simp only: grad bind_err_Inr loop prod.case get set)
  moreover have "length (hansenlaw_spec row) = length row"
    using assms by (simp add: hansenlaw_spec_def Let_def)
  ultimately show ?thesis by simp
qed



lemma transform_Inr: "2 \<le> length row \<Longrightarrow> iabel_hansenlaw_transform row = Inr (hansenlaw_spec row)"
  using transform_eq_spec by blast

lemma length_hansenlaw_spec: "2 \<le> length row \<Longrightarrow> length (hansenlaw_spec row) = length row"
  using transform_eq_spec by blast

lemma transform_short: "length row < 2 \<Longrightarrow> iabel_hansenlaw_transform row = Inl ValueError"
  by (simp add: iabel_hansenlaw_transform_def np_gradient_def Let_def)


lemma last_duplicated:
  assumes "2 \<le> length row"
  shows "hansenlaw_spec row ! (length row - 1) = hansenlaw_spec row ! (length row - 2)"
proof -
  define N where "N = length row"
  define f where "f = output_spec N (gradient row)"
  have N: "2 \<le> N" using assms by (simp add: N_def)
  have "(map uminus (map f [0..<N - 1] @ [f (N - 2)])) ! (N - 1) = - f (N - 2)"
    using N by (simp add: nth_append)
  moreover have "(map uminus (map f [0..<N - 1] @ [f (N - 2)])) ! (N - 2) = - f (N - 2)"
    using N by (simp add: nth_append)
  ultimately show ?thesis
    by (simp add: hansenlaw_spec_def Let_def N_def f_def)
qed

lemma lam_cases: "k < 9 \<Longrightarrow> (k = 0 \<and> lam ! k = 0) \<or> (0 < k \<and> lam ! k < -1)"
proof -
  assume "k < 9"
  then have "k \<in> {0, 1, 2, 3, 4, 5, 6, 7, 8}" by auto
  then show ?thesis by (auto simp: lam_def)
qed

section \<open>Splitting and reforming\<close>

lemma map2_take_drop: "map2 (@) (map (take k) xs) (map (drop k) xs) = xs"
  by (induction xs) simp_all

lemma map2_append_take: "map2 (@) (take n a) (take n b) = take n (map2 (@) a b)"
  by (simp add: take_zip take_map)

lemma map2_append_rev_drop:
  "length a = length b \<Longrightarrow> map2 (@) (rev (drop n a)) (rev (drop n b)) = rev (drop n (map2 (@) a b))"
  by (simp add: zip_rev drop_zip drop_map rev_map)

lemma map_rev_rev: "map rev (map rev a) = a"
  by (induction a) simp_all

lemma has_shape_cols:
  "has_shape a N M \<Longrightarrow> a \<noteq> [] \<Longrightarrow> snd (np_shape a) = M"
  by (cases a) (simp_all add: has_shape_def np_shape_def)

lemma has_shape_take: "has_shape a N M \<Longrightarrow> has_shape (take n a) (min N n) M"
  by (auto simp: has_shape_def dest: in_set_takeD)

lemma has_shape_drop: "has_shape a N M \<Longrightarrow> has_shape (drop n a) (N - n) M"
  by (auto simp: has_shape_def dest: in_set_dropD)

lemma split_quadrants_eq:
  "split_quadrants data =
     (let k = (snd (np_shape data) + 1) div 2; n = (length data + 1) div 2;
          left = map (take k) data; right = map (drop k) data
      in (map rev (take n right), take n left, rev (drop n left), map rev (rev (drop n right))))"
  by (simp add: split_quadrants_def array_split_axis1_def array_split_axis0_def Let_def
      np_fliplr_def np_flipud_def)

lemma reform_split:
  assumes "has_shape data N M"
  shows "reform_image (split_quadrants data) = Inr data"
proof -
  define k where "k = (snd (np_shape data) + 1) div 2"
  define n where "n = (length data + 1) div 2"
  define left where "left = map (take k) data"
  define right where "right = map (drop k) data"
  have whole: "map2 (@) left right = data"
    by (simp add: left_def right_def map2_take_drop)
  have len: "length left = length right" by (simp add: left_def right_def)
  have top: "np_concatenate_axis1 (take n left) (np_fliplr (map rev (take n right))) = Inr (take n data)"
    using len by (simp add: np_concatenate_axis1_def np_fliplr_def map_rev_rev map2_append_take whole)
  have "np_fliplr (map rev (rev (drop n right))) = rev (drop n right)"
    by (simp add: np_fliplr_def map_rev_rev)
  then have bottom: "np_concatenate_axis1 (rev (drop n left)) (np_fliplr (map rev (rev (drop n right)))) =
      Inr (rev (drop n data))"
    using len by (simp add: np_concatenate_axis1_def map2_append_rev_drop whole)
  have cols: "snd (np_shape (take n data)) = snd (np_shape (drop n data))"
    if "take n data \<noteq> []" "drop n data \<noteq> []"
    using that has_shape_cols [OF has_shape_take [OF assms]] has_shape_cols [OF has_shape_drop [OF assms]]
    by simp
  have stack: "np_concatenate_axis0 (take n data) (np_flipud (rev (drop n data))) = Inr data"
    using cols by (auto simp: np_concatenate_axis0_def np_flipud_def)
  show ?thesis
    unfolding split_quadrants_eq Let_def k_def [symmetric] n_def [symmetric]
      left_def [symmetric] right_def [symmetric] reform_image_def prod.case
    by (simp only: top bottom bind_err_Inr stack)
qed

lemma split_quadrants_shapes:
  assumes "has_shape data N M" "even N" "even M"
  shows "case split_quadrants data of (Q0, Q1, Q2, Q3) \<Rightarrow>
           has_shape Q0 (N div 2) (M div 2) \<and> has_shape Q1 (N div 2) (M div 2) \<and>
           has_shape Q2 (N div 2) (M div 2) \<and> has_shape Q3 (N div 2) (M div 2)"
proof (cases "data = []")
  case True
  then show ?thesis using assms by (simp add: split_quadrants_eq has_shape_def Let_def)
next
  case False
  then have M: "snd (np_shape data) = M" using assms(1) by (rule has_shape_cols [rotated])
  have k: "(M + 1) div 2 = M div 2" using assms(3) by auto
  have n: "(N + 1) div 2 = N div 2" using assms(2) by auto
  have len: "length data = N" and rows: "\<And>r. r \<in> set data \<Longrightarrow> length r = M"
    using assms(1) by (auto simp: has_shape_def)
  have h: "M - M div 2 = M div 2" "N - N div 2 = N div 2" "min N (N div 2) = N div 2"
       "min M (M div 2) = M div 2"
    using assms(2,3) by auto
  show ?thesis
    unfolding split_quadrants_eq Let_def M prod.case has_shape_def
    using rows h len k n by (auto dest!: in_set_takeD in_set_dropD)
qed

lemma split_2x4:
  "split_quadrants [[1, 2, 3, 4], [5, 6, 7, 8 :: real]] = ([[4, 3]], [[1, 2]], [[5, 6]], [[8, 7]])"
  by (simp add: split_quadrants_eq np_shape_def Let_def)


section \<open>Printing, row mapping and co-adding\<close>

lemma snd_io_bind: "snd (io_bind m f) = bind_err (snd m) (\<lambda>x. snd (f x))"
  by (cases m) (auto simp: io_bind_def split: sum.splits prod.splits)

lemma fst_io_bind_quiet:
  "fst m = [] \<Longrightarrow> (\<And>x. fst (f x) = []) \<Longrightarrow> fst (io_bind m f) = []"
  by (cases m) (auto simp: io_bind_def split: sum.splits prod.splits)

lemma snd_io_print [simp]: "snd (io_print v m) = Inr ()"
  by (simp add: io_print_def)

lemma fst_io_print_quiet [simp]: "fst (io_print False m) = []"
  by (simp add: io_print_def)

lemma snd_io_lift [simp]: "snd (io_lift r) = r"
  by (simp add: io_lift_def)

lemma fst_io_lift [simp]: "fst (io_lift r) = []"
  by (simp add: io_lift_def)

lemma snd_invert_quadrants:
  "snd (invert_quadrants pool q v N2 Qs) = snd (invert_quadrants pool q False N2 Qs)"
  by (cases q; cases Qs) (simp add: invert_quadrants_def snd_io_bind)

lemma fst_invert_quadrants_quiet: "fst (invert_quadrants pool q False N2 Qs) = []"
  by (cases q; cases Qs) (simp add: invert_quadrants_def fst_io_bind_quiet)

lemma snd_iabel_hansenlaw:
  "snd (iabel_hansenlaw cpu_count calculate_speeds data q calc_speeds v freecpus) =
   bind_err (mp_Pool (int cpu_count - freecpus)) (\<lambda>pool.
   bind_err (snd (invert_quadrants pool q False (fst (np_shape data) div 2) (split_quadrants data))) (\<lambda>AQ.
   bind_err (bind_err (as_arrays AQ) reform_image) (\<lambda>recon.
   Inr (recon, if calc_speeds then Some (calculate_speeds recon (fst (np_shape data))) else None))))"
  unfolding iabel_hansenlaw_def
  by (cases "np_shape data"; cases calc_speeds)
     (simp_all add: snd_io_bind Let_def snd_invert_quadrants [of _ _ v])

lemma fst_iabel_hansenlaw_quiet:
  "fst (iabel_hansenlaw cpu_count calculate_speeds data q calc_speeds False freecpus) = []"
  unfolding iabel_hansenlaw_def
  by (cases "np_shape data"; cases calc_speeds)
     (simp_all add: fst_io_bind_quiet fst_invert_quadrants_quiet Let_def)

lemma map_err_Inr:
  "(\<And>x. x \<in> set xs \<Longrightarrow> f x = Inr (g x)) \<Longrightarrow> map_err f xs = Inr (map g xs)"
  by (induction xs) simp_all

lemma py_getitem_nat: "i < length xs \<Longrightarrow> py_getitem xs (int i) = Inr (xs ! i)"
  by (simp add: py_getitem_def py_index_def)

lemma rows_of_take: "N2 \<le> length Q \<Longrightarrow> rows_of Q N2 = Inr (take N2 Q)"
proof -
  assume le: "N2 \<le> length Q"
  have "rows_of Q N2 = Inr (map (\<lambda>i. Q ! i) [0..<N2])"
    unfolding rows_of_def using le by (intro map_err_Inr) (simp add: py_getitem_nat)
  also have "map (\<lambda>i. Q ! i) [0..<N2] = take N2 Q"
    using le by (simp add: list_eq_iff_nth_eq)
  finally show ?thesis .
qed

lemma pool_map_transform:
  "(\<And>r. r \<in> set rows \<Longrightarrow> 2 \<le> length r) \<Longrightarrow>
   pool_map pool iabel_hansenlaw_transform rows = Inr (map hansenlaw_spec rows)"
  unfolding pool_map_def by (intro map_err_Inr) (simp add: transform_Inr)

lemma invert_one:
  assumes "has_shape Q N2 M2" and "2 \<le> M2"
  shows "bind_err (rows_of Q N2) (pool_map pool iabel_hansenlaw_transform) = Inr (map hansenlaw_spec Q)"
proof -
  have len: "length Q = N2" and rows: "\<And>r. r \<in> set Q \<Longrightarrow> length r = M2"
    using assms(1) by (auto simp: has_shape_def)
  have "rows_of Q N2 = Inr Q" using rows_of_take [of N2 Q] len by simp
  moreover have "pool_map pool iabel_hansenlaw_transform Q = Inr (map hansenlaw_spec Q)"
    using rows assms(2) by (intro pool_map_transform) simp
  ultimately show ?thesis by simp
qed

lemma has_shape_map_spec:
  "has_shape Q N2 M2 \<Longrightarrow> 2 \<le> M2 \<Longrightarrow> has_shape (map hansenlaw_spec Q) N2 M2"
  by (auto simp: has_shape_def length_hansenlaw_spec)

lemma broadcast_same: "length xs = length ys \<Longrightarrow> broadcast xs ys = Inr (zip xs ys)"
  by (simp add: broadcast_def)

lemma np_add_row_same: "length r = length s \<Longrightarrow> np_add_row r s = Inr (map2 (+) r s)"
  by (simp add: np_add_row_def broadcast_same)

lemma np_add_same:
  assumes "has_shape a N M" and "has_shape b N M"
  shows "np_add a b = Inr (map2 (map2 (+)) a b)"
proof -
  have len: "length a = length b" using assms by (simp add: has_shape_def)
  have rows: "np_add_row r s = Inr (map2 (+) r s)" if "(r, s) \<in> set (zip a b)" for r s
  proof -
    have "r \<in> set a" "s \<in> set b" using that by (auto dest: set_zip_leftD set_zip_rightD)
    then have "length r = length s" using assms by (simp add: has_shape_def)
    then show ?thesis by (rule np_add_row_same)
  qed
  have "map_err (\<lambda>(r, s). np_add_row r s) (zip a b) = Inr (map (\<lambda>(r, s). map2 (+) r s) (zip a b))"
    by (intro map_err_Inr) (auto simp: rows)
  then show ?thesis by (simp add: np_add_def broadcast_same [OF len])
qed

lemma has_shape_add:
  assumes "has_shape a N M" and "has_shape b N M"
  shows "has_shape (map2 (map2 (+)) a b) N M"
proof -
  have "length r = M \<and> length s = M" if "(r, s) \<in> set (zip a b)" for r s
    using that assms set_zip_leftD [OF that] set_zip_rightD [OF that] by (simp add: has_shape_def)
  then show ?thesis using assms by (auto simp: has_shape_def)
qed

lemma nth_add:
  assumes "has_shape a N M" and "has_shape b N M" and "i < N" and "j < M"
  shows "map2 (map2 (+)) a b ! i ! j = a ! i ! j + b ! i ! j"
  using assms by (simp add: has_shape_def)

lemma has_shape_mul_bool: "has_shape a N M \<Longrightarrow> has_shape (np_mul_bool a b) N M"
  by (auto simp: has_shape_def np_mul_bool_def)

lemma nth_mul_bool:
  "has_shape a N M \<Longrightarrow> i < N \<Longrightarrow> j < M \<Longrightarrow> np_mul_bool a b ! i ! j = (if b then a ! i ! j else 0)"
  by (simp add: has_shape_def np_mul_bool_def)

lemma coadd_same:
  assumes "has_shape Q0 N M" "has_shape Q1 N M" "has_shape Q2 N M" "has_shape Q3 N M"
  shows "\<exists>Q. coadd (q0, q1, q2, q3) (Q0, Q1, Q2, Q3) = Inr Q \<and> has_shape Q N M \<and>
           (\<forall>i<N. \<forall>j<M. Q ! i ! j =
              (if q0 then Q0 ! i ! j else 0) + (if q1 then Q1 ! i ! j else 0) +
              (if q2 then Q2 ! i ! j else 0) + (if q3 then Q3 ! i ! j else 0))"
proof -
  let ?P0 = "np_mul_bool Q0 q0" and ?P1 = "np_mul_bool Q1 q1"
  let ?P2 = "np_mul_bool Q2 q2" and ?P3 = "np_mul_bool Q3 q3"
  note P = assms [THEN has_shape_mul_bool]
  let ?S1 = "map2 (map2 (+)) ?P0 ?P1"
  have S1: "has_shape ?S1 N M" by (rule has_shape_add [OF P(1) P(2)])
  let ?S2 = "map2 (map2 (+)) ?S1 ?P2"
  have S2: "has_shape ?S2 N M" by (rule has_shape_add [OF S1 P(3)])
  let ?S3 = "map2 (map2 (+)) ?S2 ?P3"
  have S3: "has_shape ?S3 N M" by (rule has_shape_add [OF S2 P(4)])
  have eq: "coadd (q0, q1, q2, q3) (Q0, Q1, Q2, Q3) = Inr ?S3"
    by (simp only: coadd_def prod.case np_add_same [OF P(1) P(2)] bind_err_Inr
        np_add_same [OF S1 P(3)] np_add_same [OF S2 P(4)])
  have px: "?S3 ! i ! j =
      (if q0 then Q0 ! i ! j else 0) + (if q1 then Q1 ! i ! j else 0) +
      (if q2 then Q2 ! i ! j else 0) + (if q3 then Q3 ! i ! j else 0)" if "i < N" "j < M" for i j
    by (simp only: nth_add [OF S2 P(4) that] nth_add [OF S1 P(3) that] nth_add [OF P(1) P(2) that]
        nth_mul_bool [OF assms(1) that] nth_mul_bool [OF assms(2) that]
        nth_mul_bool [OF assms(3) that] nth_mul_bool [OF assms(4) that])
  show ?thesis using eq S3 px by blast
qed


lemma fst_io_print [simp]: "fst (io_print v m) = (if v then [m] else [])"
  by (simp add: io_print_def)


lemma snd_invert_coadd:
  "q0 \<or> q1 \<or> q2 \<or> q3 \<Longrightarrow>
   snd (invert_quadrants pool (q0, q1, q2, q3) v N2 Qs) =
   bind_err (coadd (q0, q1, q2, q3) Qs) (\<lambda>Q.
   bind_err (bind_err (rows_of Q N2) (pool_map pool iabel_hansenlaw_transform)) (\<lambda>A.
   Inr (A, A, A, A)))"
  by (cases Qs) (simp add: invert_quadrants_def snd_io_bind)

lemma snd_invert_individual:
  "\<not> (q0 \<or> q1 \<or> q2 \<or> q3) \<Longrightarrow>
   snd (invert_quadrants pool (q0, q1, q2, q3) v N2 (Q0, Q1, Q2, Q3)) =
   bind_err (bind_err (rows_of Q0 N2) (pool_map pool iabel_hansenlaw_transform)) (\<lambda>A0.
   bind_err (bind_err (rows_of Q1 N2) (pool_map pool iabel_hansenlaw_transform)) (\<lambda>A1.
   bind_err (bind_err (rows_of Q2 N2) (pool_map pool iabel_hansenlaw_transform)) (\<lambda>A2.
   bind_err (bind_err (rows_of Q3 N2) (pool_map pool iabel_hansenlaw_transform)) (\<lambda>A3.
   Inr (A0, A1, A2, A3)))))"
  by (simp add: invert_quadrants_def snd_io_bind)


section \<open>Shapes through the inversion\<close>

lemma invert_quadrants_shapes:
  assumes "has_shape Q0 N2 M2" and "has_shape Q1 N2 M2"
    and "has_shape Q2 N2 M2" and "has_shape Q3 N2 M2" and "2 \<le> M2"
  shows "\<exists>A0 A1 A2 A3.
           snd (invert_quadrants pool (q0, q1, q2, q3) v N2 (Q0, Q1, Q2, Q3)) = Inr (A0, A1, A2, A3) \<and>
           has_shape A0 N2 M2 \<and> has_shape A1 N2 M2 \<and> has_shape A2 N2 M2 \<and> has_shape A3 N2 M2"
proof (cases "q0 \<or> q1 \<or> q2 \<or> q3")
  case True
  from coadd_same [OF assms(1-4), of q0 q1 q2 q3] obtain Q where
    Q: "coadd (q0, q1, q2, q3) (Q0, Q1, Q2, Q3) = Inr Q" and sh: "has_shape Q N2 M2"
    by blast
  let ?A = "map hansenlaw_spec Q"
  have "snd (invert_quadrants pool (q0, q1, q2, q3) v N2 (Q0, Q1, Q2, Q3)) = Inr (?A, ?A, ?A, ?A)"
    by (simp only: snd_invert_coadd [OF True] Q bind_err_Inr invert_one [OF sh assms(5)])
  then show ?thesis using has_shape_map_spec [OF sh assms(5)] by blast
next
  case False
  have "snd (invert_quadrants pool (q0, q1, q2, q3) v N2 (Q0, Q1, Q2, Q3)) =
        Inr (map hansenlaw_spec Q0, map hansenlaw_spec Q1, map hansenlaw_spec Q2, map hansenlaw_spec Q3)"
    by (simp only: snd_invert_individual [OF False] bind_err_Inr
        invert_one [OF assms(1) assms(5)] invert_one [OF assms(2) assms(5)]
        invert_one [OF assms(3) assms(5)] invert_one [OF assms(4) assms(5)])
  then show ?thesis
    using has_shape_map_spec [OF assms(1) assms(5)] has_shape_map_spec [OF assms(2) assms(5)]
      has_shape_map_spec [OF assms(3) assms(5)] has_shape_map_spec [OF assms(4) assms(5)]
    by blast
qed

lemma as_arrays_nonempty:
  "A0 \<noteq> [] \<Longrightarrow> A1 \<noteq> [] \<Longrightarrow> A2 \<noteq> [] \<Longrightarrow> A3 \<noteq> [] \<Longrightarrow>
   as_arrays (A0, A1, A2, A3) = Inr (A0, A1, A2, A3)"
  by (simp add: as_arrays_def asarray_2d_def)

lemma has_shape_concat1:
  assumes "has_shape a n m" and "has_shape b n m'"
  shows "np_concatenate_axis1 a b = Inr (map2 (@) a b) \<and> has_shape (map2 (@) a b) n (m + m')"
proof -
  have "length r = m \<and> length s = m'" if "(r, s) \<in> set (zip a b)" for r s
    using that assms set_zip_leftD [OF that] set_zip_rightD [OF that] by (simp add: has_shape_def)
  then show ?thesis using assms by (auto simp: has_shape_def np_concatenate_axis1_def)
qed

lemma has_shape_fliplr: "has_shape a n m \<Longrightarrow> has_shape (np_fliplr a) n m"
  by (auto simp: has_shape_def np_fliplr_def)

lemma has_shape_flipud: "has_shape a n m \<Longrightarrow> has_shape (np_flipud a) n m"
  by (auto simp: has_shape_def np_flipud_def)

lemma has_shape_concat0:
  assumes "has_shape a n m" and "has_shape b n' m"
  shows "np_concatenate_axis0 a b = Inr (a @ b) \<and> has_shape (a @ b) (n + n') m"
proof -
  have "snd (np_shape a) = snd (np_shape b)" if "a \<noteq> []" "b \<noteq> []"
    using that has_shape_cols [OF assms(1)] has_shape_cols [OF assms(2)] by simp
  then show ?thesis using assms by (auto simp: has_shape_def np_concatenate_axis0_def)
qed

lemma reform_shape:
  assumes "has_shape A0 n m" and "has_shape A1 n m" and "has_shape A2 n m" and "has_shape A3 n m"
  shows "\<exists>r. reform_image (A0, A1, A2, A3) = Inr r \<and> has_shape r (n + n) (m + m)"
proof -
  note top = has_shape_concat1 [OF assms(2) has_shape_fliplr [OF assms(1)]]
  note bot = has_shape_concat1 [OF assms(3) has_shape_fliplr [OF assms(4)]]
  note all = has_shape_concat0 [OF conjunct2 [OF top] has_shape_flipud [OF conjunct2 [OF bot]]]
  have "reform_image (A0, A1, A2, A3) =
        Inr (map2 (@) A1 (np_fliplr A0) @ np_flipud (map2 (@) A2 (np_fliplr A3)))"
    by (simp only: reform_image_def prod.case conjunct1 [OF top] conjunct1 [OF bot]
        bind_err_Inr conjunct1 [OF all])
  then show ?thesis using conjunct2 [OF all] by blast
qed

lemma iabel_hansenlaw_shape:
  assumes "has_shape data N M" and "even N" and "even M" and "2 \<le> N" and "4 \<le> M"
    and "freecpus < int cpu_count"
  shows "\<exists>recon speeds.
           snd (iabel_hansenlaw cpu_count calculate_speeds data q calc_speeds verbose freecpus) =
             Inr (recon, speeds) \<and> has_shape recon N M"
proof -
  obtain q0 q1 q2 q3 where q: "q = (q0, q1, q2, q3)" by (cases q) auto
  obtain Q0 Q1 Q2 Q3 where Qs: "split_quadrants data = (Q0, Q1, Q2, Q3)"
    by (cases "split_quadrants data") auto
  let ?N2 = "N div 2" and ?M2 = "M div 2"
  have ne: "data \<noteq> []" using assms(1,4) by (auto simp: has_shape_def)
  have shape: "np_shape data = (N, M)"
    using assms(1) has_shape_cols [OF assms(1) ne] by (simp add: np_shape_def has_shape_def)
  have sh: "has_shape Q0 ?N2 ?M2" "has_shape Q1 ?N2 ?M2" "has_shape Q2 ?N2 ?M2" "has_shape Q3 ?N2 ?M2"
    using split_quadrants_shapes [OF assms(1-3)] by (simp_all add: Qs)
  have m2: "2 \<le> ?M2" using assms(5) by simp
  have n2: "0 < ?N2" using assms(4) by simp
  have pool: "mp_Pool (int cpu_count - freecpus) = Inr (nat (int cpu_count - freecpus))"
    using assms(6) by (simp add: mp_Pool_def)
  from invert_quadrants_shapes [OF sh m2, of "nat (int cpu_count - freecpus)" q0 q1 q2 q3 False]
  obtain A0 A1 A2 A3 where
    inv: "snd (invert_quadrants (nat (int cpu_count - freecpus)) (q0, q1, q2, q3) False ?N2
            (Q0, Q1, Q2, Q3)) = Inr (A0, A1, A2, A3)" and
    A: "has_shape A0 ?N2 ?M2" "has_shape A1 ?N2 ?M2" "has_shape A2 ?N2 ?M2" "has_shape A3 ?N2 ?M2"
    by blast
  have nonempty: "A0 \<noteq> []" "A1 \<noteq> []" "A2 \<noteq> []" "A3 \<noteq> []"
    using A n2 by (auto simp: has_shape_def)
  from reform_shape [OF A] obtain r where
    r: "reform_image (A0, A1, A2, A3) = Inr r" and rs: "has_shape r (?N2 + ?N2) (?M2 + ?M2)"
    by blast
  have dims: "?N2 + ?N2 = N" "?M2 + ?M2 = M" using assms(2,3) by auto
  have "snd (iabel_hansenlaw cpu_count calculate_speeds data q calc_speeds verbose freecpus) =
        Inr (r, if calc_speeds then Some (calculate_speeds r N) else None)"
    by (simp only: snd_iabel_hansenlaw pool bind_err_Inr shape fst_conv q Qs inv
        as_arrays_nonempty [OF nonempty] r)
  then show ?thesis using rs dims by auto
qed

lemma split_2x2: "split_quadrants [[1, 2], [3, 4 :: real]] = ([[2]], [[1]], [[3]], [[4]])"
  by (simp add: split_quadrants_eq np_shape_def Let_def)

lemma narrow_image_raises:
  "snd (iabel_hansenlaw 4 no_speeds [[1, 2], [3, 4]] (True, True, True, True) True True 1) =
   Inl ValueError"
  by (simp add: snd_iabel_hansenlaw mp_Pool_def np_shape_def split_2x2 snd_invert_coadd
      coadd_def np_add_def np_add_row_def broadcast_def np_mul_bool_def rows_of_def
      py_getitem_def py_index_def pool_map_def transform_short)

lemma empty_image_raises:
  "snd (iabel_hansenlaw 4 no_speeds [] (True, True, True, True) True True 1) = Inl ValueError"
  by (simp add: snd_iabel_hansenlaw mp_Pool_def np_shape_def split_quadrants_eq snd_invert_coadd
      coadd_def np_add_def broadcast_def np_mul_bool_def rows_of_def pool_map_def
      as_arrays_def asarray_2d_def)

lemma no_worker_raises:
  "snd (iabel_hansenlaw 1 no_speeds
      [[1, 2, 3, 4], [5, 6, 7, 8], [9, 10, 11, 12], [13, 14, 15, 16]]
      (True, True, True, True) True True 1) = Inl ValueError"
  by (simp add: snd_iabel_hansenlaw mp_Pool_def)

section \<open>Centroids and rounding\<close>















section \<open>The transform over samples of any kind\<close>

lemma term_step_over_pos:
  "0 < Nm \<Longrightarrow> term_step_over ar Nm gp n k X = Inr (X[k := term_value_over ar Nm gp n X k])"
  by (simp add: term_step_over_def py_pow_pos Gamma_pos term_value_over_def)

lemma length_partly_over [simp]: "length (partly_over ar Nm gp n X j) = length X"
  by (simp add: partly_over_def)

lemma nth_partly_over:
  "k < length X \<Longrightarrow>
   partly_over ar Nm gp n X j ! k = (if k < j then term_value_over ar Nm gp n X k else X ! k)"
  by (simp add: partly_over_def)

lemma partly_over_0: "partly_over ar Nm gp n X 0 = X"
  by (simp add: partly_over_def map_nth)

lemma partly_over_Suc:
  assumes "j < length X"
  shows "(partly_over ar Nm gp n X j)[j := term_value_over ar Nm gp n (partly_over ar Nm gp n X j) j] =
         partly_over ar Nm gp n X (Suc j)"
proof (rule nth_equalityI)
  show "length ((partly_over ar Nm gp n X j)[j := term_value_over ar Nm gp n (partly_over ar Nm gp n X j) j]) =
        length (partly_over ar Nm gp n X (Suc j))"
    by simp
next
  fix i
  assume "i < length ((partly_over ar Nm gp n X j)[j := term_value_over ar Nm gp n (partly_over ar Nm gp n X j) j])"
  then have i: "i < length X" by simp
  have same: "term_value_over ar Nm gp n (partly_over ar Nm gp n X j) j = term_value_over ar Nm gp n X j"
    using assms by (simp add: term_value_over_def nth_partly_over)
  show "(partly_over ar Nm gp n X j)[j := term_value_over ar Nm gp n (partly_over ar Nm gp n X j) j] ! i =
        partly_over ar Nm gp n X (Suc j) ! i"
  proof (cases "i = j")
    case True
    then show ?thesis using i by (simp add: same nth_partly_over)
  next
    case False
    then show ?thesis using i by (simp add: nth_partly_over less_Suc_eq)
  qed
qed

lemma term_loop_over:
  assumes "0 < Nm"
  shows "j \<le> length X \<Longrightarrow>
         for_loop (term_step_over ar Nm gp n) [0..<j] X = Inr (partly_over ar Nm gp n X j)"
proof (induction j)
  case 0
  then show ?case by (simp add: partly_over_0)
next
  case (Suc j)
  then have IH: "for_loop (term_step_over ar Nm gp n) [0..<j] X = Inr (partly_over ar Nm gp n X j)"
    by simp
  have j: "j < length X" using Suc.prems by simp
  have "for_loop (term_step_over ar Nm gp n) [0..<Suc j] X =
        bind_err (for_loop (term_step_over ar Nm gp n) [0..<j] X)
          (for_loop (term_step_over ar Nm gp n) [j])"
    by (simp only: upt_Suc_append [OF le0] for_loop_append)
  also have "\<dots> = term_step_over ar Nm gp n j (partly_over ar Nm gp n X j)"
    by (simp only: IH bind_err_Inr for_loop.simps) (simp add: bind_err_def split: sum.split)
  also have "\<dots> = Inr (partly_over ar Nm gp n X (Suc j))"
    by (simp only: term_step_over_pos [OF assms] partly_over_Suc [OF j])
  finally show ?case .
qed

lemma partly_over_full:
  "partly_over ar (Nm_spec N n) g n (X_after_over ar N g n) 9 = X_after_over ar N g (Suc n)"
  by (rule nth_equalityI) (simp_all add: X_after_over_def nth_partly_over term_value_over_def)

lemma A_after_over_Suc:
  "m < N \<Longrightarrow> (A_after_over ar N g m)[m := output_over ar N g m] = A_after_over ar N g (Suc m)"
  by (rule nth_equalityI)
     (auto simp: A_after_over_def nth_list_update nth_append less_Suc_eq)

lemma pixel_step_over_spec:
  assumes "Suc n < N"
  shows "pixel_step_over ar 9 N g n (X_after_over ar N g n, A_after_over ar N g n) =
         Inr (X_after_over ar N g (Suc n), A_after_over ar N g (Suc n))"
proof -
  have pos: "0 < Nm_spec N n" using Nm_spec_gt_1 [OF assms] by simp
  have len: "9 \<le> length (X_after_over ar N g n)" by (simp add: X_after_over_def)
  have loop: "for_loop (term_step_over ar (Nm_spec N n) g n) [0..<9] (X_after_over ar N g n) =
              Inr (X_after_over ar N g (Suc n))"
    by (simp only: term_loop_over [OF pos len] partly_over_full)
  have s: "np_sum ar (X_after_over ar N g (Suc n)) = output_over ar N g n"
    by (simp add: X_after_over_def output_over_def)
  have n: "n < N" using assms by simp
  show ?thesis
    by (simp only: pixel_step_over_def prod.case py_div_Nm [OF assms] bind_err_Inr loop s
        A_after_over_Suc [OF n])
qed

lemma pixel_loop_over:
  "m < N \<Longrightarrow>
   for_loop (pixel_step_over ar 9 N g) [0..<m] (X_after_over ar N g 0, A_after_over ar N g 0) =
     Inr (X_after_over ar N g m, A_after_over ar N g m)"
proof (induction m)
  case 0
  then show ?case by simp
next
  case (Suc m)
  then have IH: "for_loop (pixel_step_over ar 9 N g) [0..<m]
       (X_after_over ar N g 0, A_after_over ar N g 0) =
       Inr (X_after_over ar N g m, A_after_over ar N g m)" by simp
  have "for_loop (pixel_step_over ar 9 N g) [0..<Suc m] (X_after_over ar N g 0, A_after_over ar N g 0) =
        bind_err (for_loop (pixel_step_over ar 9 N g) [0..<m]
                    (X_after_over ar N g 0, A_after_over ar N g 0))
          (for_loop (pixel_step_over ar 9 N g) [m])"
    by (simp only: upt_Suc_append [OF le0] for_loop_append)
  also have "\<dots> = bind_err (pixel_step_over ar 9 N g m (X_after_over ar N g m, A_after_over ar N g m)) Inr"
    by (simp only: IH bind_err_Inr for_loop.simps) (simp add: bind_err_def split: sum.split)
  also have "\<dots> = Inr (X_after_over ar N g (Suc m), A_after_over ar N g (Suc m))"
    by (simp only: pixel_step_over_spec [OF Suc.prems] bind_err_Inr)
  finally show ?case .
qed

lemma start_state_over:
  "(replicate 9 (szero ar), replicate N (szero ar)) = (X_after_over ar N g 0, A_after_over ar N g 0)"
  by (simp add: X_after_over_def A_after_over_def list_eq_iff_nth_eq)

lemma length_gradient_over [simp]: "length (gradient_over ar f) = length f"
  by (simp add: gradient_over_def Let_def)

lemma transform_over_Inr:
  assumes "2 \<le> length row"
  shows "iabel_hansenlaw_transform_over ar row =
         Inr (recursion_over ar (length row) (gradient_over ar row))"
proof -
  define N where "N = length row"
  define g where "g = gradient_over ar row"
  have N: "N - 1 < N" "2 \<le> N" using assms by (simp_all add: N_def)
  have grad: "np_gradient_over ar row = Inr g" using assms by (simp add: np_gradient_over_def g_def)
  have loop: "for_loop (pixel_step_over ar 9 N g) [0..<N - 1] (replicate 9 (szero ar), replicate N (szero ar)) =
              Inr (X_after_over ar N g (N - 1), A_after_over ar N g (N - 1))"
    by (simp only: start_state_over [of ar N g] pixel_loop_over [OF N(1)])
  have A: "A_after_over ar N g (N - 1) = map (output_over ar N g) [0..<N - 1] @ [szero ar]"
    using N(2) by (simp add: A_after_over_def)
  have get: "py_getitem (A_after_over ar N g (N - 1)) (int N - 2) = Inr (output_over ar N g (N - 2))"
    unfolding A using N(2) by (auto simp: py_getitem_def py_index_def nth_append nat_diff_distrib)
  have set: "py_setitem (A_after_over ar N g (N - 1)) (int N - 1) v =
             Inr (map (output_over ar N g) [0..<N - 1] @ [v])" for v
    unfolding A using N(2) by (simp add: py_setitem_def py_index_def nat_diff_distrib list_update_append)
  show ?thesis
    unfolding iabel_hansenlaw_transform_over_def recursion_over_def Let_def N_def [symmetric]
      g_def [symmetric] length_h
    by (simp only: grad bind_err_Inr loop prod.case get set)
qed

lemma length_recursion_over: "2 \<le> N \<Longrightarrow> length (recursion_over ar N g) = N"
  by (simp add: recursion_over_def)

lemma transform_over_short:
  "length row < 2 \<Longrightarrow> iabel_hansenlaw_transform_over ar row = Inl ValueError"
  by (simp add: iabel_hansenlaw_transform_over_def np_gradient_over_def Let_def)

lemma foldl_add_sum_list: "foldl (+) a xs = a + sum_list (xs :: real list)"
  by (induction xs arbitrary: a) simp_all

lemma np_sum_real: "np_sum real_arith X = sum_list X"
  by (simp add: np_sum_def real_arith_def foldl_add_sum_list)

lemma gradient_over_real: "gradient_over real_arith f = gradient f"
  by (simp add: gradient_over_def gradient_def real_arith_def Let_def)

lemma term_step_over_real: "term_step_over real_arith = term_step"
  by (intro ext) (simp add: term_step_over_def term_step_def real_arith_def)

lemma pixel_step_over_real: "pixel_step_over real_arith = pixel_step"
  by (intro ext) (simp add: pixel_step_over_def pixel_step_def term_step_over_real np_sum_real)

lemma transform_over_real: "iabel_hansenlaw_transform_over real_arith row = iabel_hansenlaw_transform row"
  unfolding iabel_hansenlaw_transform_over_def iabel_hansenlaw_transform_def
    pixel_step_over_real np_gradient_over_def np_gradient_def gradient_over_real
  by (simp add: real_arith_def Let_def)

lemma round53_0 [simp]: "round53 0 = 0"
  by (simp add: round53_def)












lemma f64_sel [simp]:
  "szero f64 = Finite 0"
  "sadd f64 = f64_op2 (+)"
  "ssub f64 = f64_op2 (-)"
  "shalf f64 = f64_op1 (\<lambda>x. x / 2)"
  "sscale f64 c = f64_op1 (\<lambda>x. c * x)"
  "sneg f64 = f64_op1 uminus"
  by (simp_all add: f64_def)

lemma f64_op2_Finite [simp]: "f64_op2 f (Finite x) (Finite y) = Finite (round53 (f x y))"
  by (simp add: f64_op2_def)

lemma f64_op1_Finite [simp]: "f64_op1 f (Finite x) = Finite (round53 (f x))"
  by (simp add: f64_op1_def)

subsection \<open>Constant rows\<close>








subsection \<open>A shift that float64 rounds away\<close>




lemma negative_Finite [simp]: "negative (Finite x) = (x < 0)"
  by (simp add: negative_def)
















lemma np_sum_Nan: "0 < j \<Longrightarrow> np_sum f64 (replicate j Nan) = Nan"
proof -
  have "foldl (f64_op2 (+)) Nan (replicate i Nan) = Nan" for i
    by (induction i) (simp_all add: f64_op2_def)
  moreover assume "0 < j"
  ultimately show ?thesis by (cases j) (simp_all add: np_sum_def f64_op2_def)
qed

lemma transform_nan_row:
  "iabel_hansenlaw_transform_over f64 [Finite 1, Nan] = Inr [Nan, Nan]"
proof -
  have g: "gradient_over f64 [Finite 1, Nan] = [Nan, Nan]"
    by (simp add: gradient_over_def Let_def upt_rec numeral_2_eq_2 f64_op2_def)
  have X: "map (\<lambda>k. X_over f64 2 [Nan, Nan] k (Suc 0)) [0..<9] = replicate 9 Nan"
    by (simp add: list_eq_iff_nth_eq f64_op2_def f64_op1_def)
  have out: "output_over f64 2 [Nan, Nan] 0 = Nan"
    unfolding output_over_def X by (simp add: np_sum_Nan)
  have "iabel_hansenlaw_transform_over f64 [Finite 1, Nan] = Inr (recursion_over f64 2 [Nan, Nan])"
    using transform_over_Inr [of "[Finite 1, Nan]" f64] by (simp add: g numeral_2_eq_2)
  also have "recursion_over f64 2 [Nan, Nan] = [Nan, Nan]"
    using out by (simp add: recursion_over_def numeral_2_eq_2 f64_op1_def)
  finally show ?thesis .
qed




section \<open>Claims about the row transform\<close>

text \<open>
  C1.  For every row of \<open>N \<ge> 2\<close> real samples the transform returns a row of length
  \<open>N\<close>, and that row is the Hansen-Law recursion of the specification: accumulators
  \<open>X[0..8]\<close> starting at zero, \<open>g\<close> the numerical gradient, for \<open>n\<close> from 0 to \<open>N - 2\<close>
  the ratio \<open>Nm = (N - n) / (N - n - 1)\<close>, each \<open>X[k]\<close> updated to
  \<open>Nm ^ lam[k] * X[k] + h[k] * Gamma(Nm, lam[k]) * g[n]\<close>, output \<open>n\<close> the sum of the nine
  accumulators, the last output a copy of the one before it, the whole row negated.
  The loops of the code, with their in-place updates and checked operations, are
  compared with the recurrence \<open>hansenlaw_spec\<close>.
\<close>

theorem iabel_hansenlaw_transform_is_recursion:
  assumes "2 \<le> length row"
  shows "iabel_hansenlaw_transform row = Inr (hansenlaw_spec row) \<and>
         length (hansenlaw_spec row) = length row \<and>
         hansenlaw_spec row ! (length row - 1) = hansenlaw_spec row ! (length row - 2)"
  using transform_Inr [OF assms] length_hansenlaw_spec [OF assms] last_duplicated [OF assms]
  by blast

theorem iabel_hansenlaw_transform_is_recursion_witness:
  "2 \<le> length [1, 3 :: real] \<and>
   iabel_hansenlaw_transform [1, 3] = Inr (hansenlaw_spec [1, 3]) \<and>
   length (hansenlaw_spec [1, 3 :: real]) = 2 \<and>
   hansenlaw_spec [1, 3 :: real] ! 1 = hansenlaw_spec [1, 3] ! 0"
  using iabel_hansenlaw_transform_is_recursion [of "[1, 3]"] by simp


text \<open>
  C6.  In every evaluation of \<open>Gamma\<close> during the transform of a row of \<open>N \<ge> 2\<close>
  samples (\<open>n\<close> from 0 to \<open>N - 2\<close>, \<open>k\<close> one of the nine table entries) the ratio \<open>Nm\<close>
  is greater than 1 and its own division does not fail; the division branch is taken
  exactly for \<open>lam[k] < -1\<close>, where the divisor \<open>pi * lam[k]\<close> is not zero; the
  logarithm branch is taken only for \<open>lam[0] = 0\<close>, on the positive argument \<open>Nm\<close>.
  Neither branch fails.
\<close>

theorem Gamma_branches_safe:
  assumes "2 \<le> N" and "n < N - 1" and "k < 9"
  shows "1 < Nm_spec N n \<and>
         py_div (real N - real n) (real N - real n - 1.0) = Inr (Nm_spec N n) \<and>
         (if lam ! k < -1
          then pi * lam ! k \<noteq> 0 \<and>
               Gamma (Nm_spec N n) (lam ! k) =
                 Inr ((1 - Nm_spec N n powr (lam ! k)) / (pi * lam ! k))
          else lam ! k = 0 \<and> k = 0 \<and>
               Gamma (Nm_spec N n) (lam ! k) = Inr (- ln (Nm_spec N n) / pi))"
proof -
  have n: "Suc n < N" using assms(2) by simp
  have gt: "1 < Nm_spec N n" by (rule Nm_spec_gt_1 [OF n])
  then have pos: "0 < Nm_spec N n" by simp
  have G: "Gamma (Nm_spec N n) (lam ! k) = Inr (Gamma_spec (Nm_spec N n) (lam ! k))"
    by (rule Gamma_pos [OF pos])
  from lam_cases [OF assms(3)] show ?thesis
    using gt py_div_Nm [OF n] G by (auto simp: Gamma_spec_def)
qed

theorem Gamma_branches_safe_witness:
  "2 \<le> (4::nat) \<and> (1::nat) < 4 - 1 \<and> (3::nat) < 9 \<and> 1 < Nm_spec 4 1 \<and> lam ! 3 < -1 \<and>
   Gamma (Nm_spec 4 1) (lam ! 3) = Inr ((1 - Nm_spec 4 1 powr (lam ! 3)) / (pi * lam ! 3))"
  using Gamma_branches_safe [of 4 1 3] by (simp add: lam_def)





text \<open>
  C4, as the claim states it, fails: a row with fewer than two samples makes the
  transform raise.  The gradient of the empty row and of a one-sample row raises
  \<open>ValueError\<close>.
\<close>

theorem transform_raises_on_short_row:
  "iabel_hansenlaw_transform [] = Inl ValueError \<and> iabel_hansenlaw_transform [7] = Inl ValueError"
  by (simp add: transform_short)

text \<open>
  C4, amended.  On rows of at least two samples the transform raises no error, whatever
  the samples are, \<open>nan\<close> included: over samples and operations of any kind it returns a
  row of the same length (a row of \<open>nan\<close> for the float64 row \<open>(1, nan)\<close>).  On every row
  of fewer than two samples it raises \<open>ValueError\<close>.  Over exact real samples this
  transform is the one of the first embedding.
\<close>

theorem transform_returns_iff_two_samples:
  "(if 2 \<le> length row
    then \<exists>out. iabel_hansenlaw_transform_over ar row = Inr out \<and> length out = length row
    else iabel_hansenlaw_transform_over ar row = Inl ValueError) \<and>
   iabel_hansenlaw_transform_over real_arith r = iabel_hansenlaw_transform r"
  by (simp add: transform_over_Inr length_recursion_over transform_over_short transform_over_real)

theorem transform_returns_iff_two_samples_witness:
  "iabel_hansenlaw_transform_over f64 [Finite 1, Nan] = Inr [Nan, Nan] \<and>
   (\<exists>out. iabel_hansenlaw_transform_over f64 [Finite 1, Nan, Finite 3] = Inr out \<and>
      length out = length [Finite 1, Nan, Finite 3]) \<and>
   iabel_hansenlaw_transform_over f64 [Nan] = Inl ValueError"
proof -
  have a: "\<exists>out. iabel_hansenlaw_transform_over f64 [Finite 1, Nan, Finite 3] = Inr out \<and>
      length out = length [Finite 1, Nan, Finite 3]"
    using conjunct1 [OF transform_returns_iff_two_samples [of "[Finite 1, Nan, Finite 3]" f64]]
    by simp
  have b: "iabel_hansenlaw_transform_over f64 [Nan] = Inl ValueError"
    using conjunct1 [OF transform_returns_iff_two_samples [of "[Nan]" f64]] by simp
  show ?thesis using transform_nan_row a b by blast
qed


section \<open>Claims about the quadrants\<close>

text \<open>
  C2.  For every image of even shape \<open>(N, M)\<close>, splitting it into the four oriented
  quadrants (each of shape \<open>(N/2, M/2)\<close>) and reforming the image from them, with
  nothing done to the rows in between, gives back the image, pixel for pixel.
\<close>

theorem quadrant_round_trip:
  assumes "has_shape data N M" and "even N" and "even M"
  shows "reform_image (split_quadrants data) = Inr data \<and>
         (case split_quadrants data of (Q0, Q1, Q2, Q3) \<Rightarrow>
           has_shape Q0 (N div 2) (M div 2) \<and> has_shape Q1 (N div 2) (M div 2) \<and>
           has_shape Q2 (N div 2) (M div 2) \<and> has_shape Q3 (N div 2) (M div 2))"
  using reform_split [OF assms(1)] split_quadrants_shapes [OF assms] by blast

theorem quadrant_round_trip_witness:
  "has_shape [[1, 2, 3, 4], [5, 6, 7, 8]] 2 4 \<and> even (2::nat) \<and> even (4::nat) \<and>
   split_quadrants [[1, 2, 3, 4], [5, 6, 7, 8]] = ([[4, 3]], [[1, 2]], [[5, 6]], [[8, 7]]) \<and>
   reform_image ([[4, 3]], [[1, 2]], [[5, 6]], [[8, 7]]) = Inr [[1, 2, 3, 4], [5, 6, 7, 8]]"
proof -
  have s: "has_shape [[1, 2, 3, 4], [5, 6, 7, 8]] 2 4" by (simp add: has_shape_def)
  have e: "even (2::nat)" "even (4::nat)" by simp_all
  from quadrant_round_trip [OF s e]
  have "reform_image (split_quadrants [[1, 2, 3, 4], [5, 6, 7, 8]]) = Inr [[1, 2, 3, 4], [5, 6, 7, 8]]"
    by (rule conjunct1)
  then show ?thesis using s by (simp add: split_2x4)
qed

section \<open>Claims about the whole inversion\<close>

text \<open>
  C8.  For every image and every setting of the other arguments, \<open>iabel_hansenlaw\<close>
  returns the same result, or raises the same exception, with \<open>verbose=True\<close> as with
  \<open>verbose=False\<close>: the reconstructed image and the speeds do not depend on the
  printing.  With \<open>verbose=False\<close> nothing is printed.
\<close>

theorem verbose_never_affects_result:
  "snd (iabel_hansenlaw cpu_count calculate_speeds data q calc_speeds True freecpus) =
   snd (iabel_hansenlaw cpu_count calculate_speeds data q calc_speeds False freecpus) \<and>
   fst (iabel_hansenlaw cpu_count calculate_speeds data q calc_speeds False freecpus) = []"
  by (simp add: snd_iabel_hansenlaw fst_iabel_hansenlaw_quiet)




text \<open>
  C5, as the claim states it, fails on images of even shape: an image of shape \<open>(2, 2)\<close>
  has quadrant rows of one sample, on which the row transform raises; the image with
  no rows gives \<open>pool.map\<close> nothing to return, and reforming the image raises; and with
  one core and \<open>freecpus = 1\<close> the pool of zero processes cannot be created, whatever
  the image.
\<close>

theorem reconstruction_raises_on_even_shapes:
  "snd (iabel_hansenlaw 4 no_speeds [[1, 2], [3, 4]] (True, True, True, True) True True 1) =
     Inl ValueError \<and>
   snd (iabel_hansenlaw 4 no_speeds [] (True, True, True, True) True True 1) = Inl ValueError \<and>
   snd (iabel_hansenlaw 1 no_speeds
      [[1, 2, 3, 4], [5, 6, 7, 8], [9, 10, 11, 12], [13, 14, 15, 16]]
      (True, True, True, True) True True 1) = Inl ValueError"
  using narrow_image_raises empty_image_raises no_worker_raises by blast

text \<open>
  C5, amended.  For every image of even shape \<open>(N, M)\<close> with \<open>N \<ge> 2\<close> and \<open>M \<ge> 4\<close>, and
  with fewer reserved cores than the machine has, \<open>iabel_hansenlaw\<close> returns a
  reconstructed image of the same shape \<open>(N, M)\<close>, for every quadrant selector and every
  setting of \<open>calc_speeds\<close> and \<open>verbose\<close>; in particular a \<open>(4, 4)\<close> image gives a \<open>(4, 4)\<close>
  image.
\<close>

theorem reconstruction_keeps_shape:
  assumes "has_shape data N M" and "even N" and "even M" and "2 \<le> N" and "4 \<le> M"
    and "freecpus < int cpu_count"
  shows "\<exists>recon speeds.
           snd (iabel_hansenlaw cpu_count calculate_speeds data q calc_speeds verbose freecpus) =
             Inr (recon, speeds) \<and> has_shape recon N M"
  using assms by (rule iabel_hansenlaw_shape)

theorem reconstruction_keeps_shape_witness:
  "has_shape [[1, 2, 3, 4], [5, 6, 7, 8], [9, 10, 11, 12], [13, 14, 15, 16]] 4 4 \<and>
   even (4::nat) \<and> (2::nat) \<le> 4 \<and> (4::nat) \<le> 4 \<and> (1::int) < int 4 \<and>
   (\<exists>recon speeds.
      snd (iabel_hansenlaw 4 no_speeds
        [[1, 2, 3, 4], [5, 6, 7, 8], [9, 10, 11, 12], [13, 14, 15, 16]]
        (True, True, True, True) True True 1) = Inr (recon, speeds) \<and>
      has_shape recon 4 4)"
proof -
  have s: "has_shape [[1, 2, 3, 4], [5, 6, 7, 8], [9, 10, 11, 12], [13, 14, 15, 16]] 4 4"
    by (simp add: has_shape_def)
  have e: "even (4::nat)" and n: "(2::nat) \<le> 4" and m: "(4::nat) \<le> 4" and c: "(1::int) < int 4"
    by simp_all
  from reconstruction_keeps_shape [OF s e e n m c, of no_speeds "(True, True, True, True)" True True]
  show ?thesis using s e n m c by blast
qed


section \<open>Claims about the centre of mass\<close>





end
